theory Spec2Isabelle
  imports Main "HOL-Library.AList"
begin

section \<open>Errors\<close>

text \<open>
  The error values of the sync package (\<^verbatim>\<open>errDupTx\<close> ... \<^verbatim>\<open>errInvalidATXID\<close>), the
  mesh's \<^verbatim>\<open>ErrAlreadyExist\<close>, and \<^verbatim>\<open>fmt.Errorf\<close>/\<^verbatim>\<open>errors.New\<close> values, which carry
  their message.  A Go \<^verbatim>\<open>error\<close> result is an \<open>error option\<close>: \<open>None\<close> is \<^verbatim>\<open>nil\<close>.
\<close>

datatype error =
    errDupTx
  | errDupAtx
  | errNoBlocksInLayer
  | errNoActiveSet
  | errZeroActiveSet
  | errInvalidATXID
  | ErrAlreadyExist
  | Errorf string

section \<open>Gossip status and the await channel\<close>

text \<open>
  \<^verbatim>\<open>type status int\<close> with its four constants (\<open>Done\<close> is the source's \<^verbatim>\<open>done\<close>, a
  reserved word here).  A Go channel is a reference: the
  model names channels by numbers, keeps the set of closed ones and the next unused
  name (what \<^verbatim>\<open>make(chan struct{})\<close> returns).  Closing a closed channel panics.
\<close>

datatype status = pending | inProgress | Done | inProgress2

type_synonym chan = nat

datatype panic = CloseOfClosedChannel

record gossip =
  gossipSynced :: status
  awaitCh :: chan
  closed :: "chan set"
  nextCh :: chan

text \<open>\<^verbatim>\<open>NewSync\<close>: \<^verbatim>\<open>gossipSynced: pending, awaitCh: make(chan struct{})\<close>.\<close>

definition NewSync :: gossip where
  "NewSync = \<lparr>gossipSynced = pending, awaitCh = 0, closed = {}, nextCh = 1\<rparr>"

definition Await :: "gossip \<Rightarrow> chan" where
  "Await s = awaitCh s"

definition notifySubscribers :: "status \<Rightarrow> status \<Rightarrow> gossip \<Rightarrow> panic + gossip" where
  "notifySubscribers prevStatus st s =
     (if (st = Done) = (prevStatus = Done) then Inr s
      else if st = Done then
        (if awaitCh s \<in> closed s then Inl CloseOfClosedChannel
         else Inr (s\<lparr>closed := insert (awaitCh s) (closed s)\<rparr>))
      else Inr (s\<lparr>awaitCh := nextCh s, nextCh := Suc (nextCh s)\<rparr>))"

definition setGossipBufferingStatus :: "status \<Rightarrow> gossip \<Rightarrow> panic + gossip" where
  "setGossipBufferingStatus st s =
     (if st = gossipSynced s then Inr s
      else (case notifySubscribers (gossipSynced s) st s of
              Inl p \<Rightarrow> Inl p
            | Inr s' \<Rightarrow> Inr (s'\<lparr>gossipSynced := st\<rparr>)))"

text \<open>A sequence of status transitions, stopping at the first panic.\<close>

fun transitions :: "status list \<Rightarrow> gossip \<Rightarrow> panic + gossip" where
  "transitions [] s = Inr s"
| "transitions (st # sts) s =
     (case setGossipBufferingStatus st s of
        Inl p \<Rightarrow> Inl p
      | Inr s' \<Rightarrow> transitions sts s')"

text \<open>
  The invariant of the gossip state: the published channel is closed exactly when the
  status is \<open>done\<close>, and every channel in use was allocated.
\<close>

definition gossip_inv :: "gossip \<Rightarrow> bool" where
  "gossip_inv s \<longleftrightarrow>
     (awaitCh s \<in> closed s) = (gossipSynced s = Done) \<and>
     awaitCh s < nextCh s \<and> (\<forall>c \<in> closed s. c < nextCh s)"

lemma gossip_inv_NewSync: "gossip_inv NewSync"
  by (simp add: gossip_inv_def NewSync_def)

lemma setGossipBufferingStatus_inv:
  assumes "gossip_inv s"
  shows "\<exists>s'. setGossipBufferingStatus st s = Inr s' \<and> gossip_inv s' \<and> gossipSynced s' = st"
  using assms
  by (auto simp: setGossipBufferingStatus_def notifySubscribers_def gossip_inv_def)

lemma transitions_inv:
  "gossip_inv s \<Longrightarrow> \<exists>s'. transitions sts s = Inr s' \<and> gossip_inv s'"
proof (induction sts arbitrary: s)
  case Nil
  then show ?case by simp
next
  case (Cons st sts)
  from setGossipBufferingStatus_inv [OF Cons.prems, of st]
  obtain s1 where s1: "setGossipBufferingStatus st s = Inr s1" "gossip_inv s1"
    by blast
  from Cons.IH [OF s1(2)] s1(1) show ?case by simp
qed

text \<open>One transition, case by case, from a state that satisfies the invariant.\<close>

lemma setGossipBufferingStatus_to_done:
  assumes "gossip_inv s" "gossipSynced s \<noteq> Done"
  shows "setGossipBufferingStatus Done s =
           Inr (s\<lparr>closed := insert (awaitCh s) (closed s), gossipSynced := Done\<rparr>)"
  using assms
  by (auto simp: setGossipBufferingStatus_def notifySubscribers_def gossip_inv_def)

lemma setGossipBufferingStatus_from_done:
  assumes "gossipSynced s = Done" "st \<noteq> Done"
  shows "setGossipBufferingStatus st s =
           Inr (s\<lparr>awaitCh := nextCh s, nextCh := Suc (nextCh s), gossipSynced := st\<rparr>)"
  using assms
  by (auto simp: setGossipBufferingStatus_def notifySubscribers_def)

lemma setGossipBufferingStatus_same_side:
  assumes "(gossipSynced s = Done) = (st = Done)"
  shows "\<exists>s'. setGossipBufferingStatus st s = Inr s' \<and> awaitCh s' = awaitCh s \<and>
           closed s' = closed s \<and> nextCh s' = nextCh s \<and> gossipSynced s' = st"
  using assms
  by (auto simp: setGossipBufferingStatus_def notifySubscribers_def)

text \<open>
  A subscriber holding the channel published while the status is not \<open>done\<close>: after any
  further transitions its channel is closed exactly when \<open>done\<close> was among them.
\<close>

lemma setGossipBufferingStatus_closed_mono:
  "setGossipBufferingStatus st s = Inr s' \<Longrightarrow> closed s \<subseteq> closed s'"
  by (auto simp: setGossipBufferingStatus_def notifySubscribers_def split: if_splits)

lemma transitions_closed_mono:
  "transitions sts s = Inr s' \<Longrightarrow> closed s \<subseteq> closed s'"
proof (induction sts arbitrary: s)
  case Nil
  then show ?case by simp
next
  case (Cons st sts)
  then obtain s1 where s1: "setGossipBufferingStatus st s = Inr s1" "transitions sts s1 = Inr s'"
    by (auto split: sum.splits)
  from setGossipBufferingStatus_closed_mono [OF s1(1)] Cons.IH [OF s1(2)]
  show ?case by blast
qed

lemma subscriber_unblocks_iff:
  assumes "gossip_inv s" "gossipSynced s \<noteq> Done" "transitions sts s = Inr s'"
  shows "(awaitCh s \<in> closed s') = (Done \<in> set sts)"
  using assms
proof (induction sts arbitrary: s)
  case Nil
  then show ?case by (simp add: gossip_inv_def)
next
  case (Cons st sts)
  from setGossipBufferingStatus_inv [OF Cons.prems(1), of st]
  obtain s1 where s1: "setGossipBufferingStatus st s = Inr s1" "gossip_inv s1" "gossipSynced s1 = st"
    by blast
  with Cons.prems(3) have rest: "transitions sts s1 = Inr s'"
    by simp
  show ?case
  proof (cases "st = Done")
    case True
    with setGossipBufferingStatus_to_done [OF Cons.prems(1,2)] s1(1)
    have "awaitCh s \<in> closed s1" by auto
    with transitions_closed_mono [OF rest] True show ?thesis by auto
  next
    case False
    with Cons.prems(2) have "(gossipSynced s = Done) = (st = Done)" by simp
    from setGossipBufferingStatus_same_side [OF this] s1(1)
    have same: "awaitCh s1 = awaitCh s" by auto
    from Cons.IH [OF s1(2) _ rest] s1(3) False same show ?thesis by simp
  qed
qed

text \<open>
  Claim C8.  From the state \<^verbatim>\<open>NewSync\<close> builds, after any sequence \<open>sts\<close> of status
  transitions (none of which panics), one further transition to \<open>st\<close>:
  \<^item> closes the channel \<^verbatim>\<open>Await()\<close> returns, and keeps it published, when it goes from a
    status other than \<open>done\<close> to \<open>done\<close>;
  \<^item> publishes the channel \<^verbatim>\<open>make\<close> returns, which is open and differs from the old one,
    and closes nothing, when it goes from \<open>done\<close> to another status;
  \<^item> leaves the channel and the set of closed channels as they are otherwise (between
    two statuses other than \<open>done\<close>, or from \<open>done\<close> to \<open>done\<close>).
  So the published channel is closed exactly while the status is \<open>done\<close> (a caller that
  subscribes then sees a closed channel), and the channel published while the status is
  not \<open>done\<close> is closed, after any further transitions, exactly when one of them was to
  \<open>done\<close>.
\<close>

theorem await_channel_semantics:
  "\<exists>s s'. transitions sts NewSync = Inr s \<and> setGossipBufferingStatus st s = Inr s' \<and>
      gossipSynced s' = st \<and>
      (Await s \<in> closed s) = (gossipSynced s = Done) \<and>
      (Await s' \<in> closed s') = (st = Done) \<and>
      (gossipSynced s \<noteq> Done \<and> st = Done \<longrightarrow>
         Await s' = Await s \<and> closed s' = insert (Await s) (closed s)) \<and>
      (gossipSynced s = Done \<and> st \<noteq> Done \<longrightarrow>
         Await s' = nextCh s \<and> Await s < nextCh s \<and> closed s' = closed s) \<and>
      ((gossipSynced s = Done) = (st = Done) \<longrightarrow>
         Await s' = Await s \<and> closed s' = closed s) \<and>
      (\<forall>more s''. st \<noteq> Done \<and> transitions more s' = Inr s'' \<longrightarrow>
         (Await s' \<in> closed s'') = (Done \<in> set more))"
proof -
  from transitions_inv [OF gossip_inv_NewSync, of sts]
  obtain s where s: "transitions sts NewSync = Inr s" "gossip_inv s"
    by blast
  from setGossipBufferingStatus_inv [OF s(2), of st]
  obtain s' where s': "setGossipBufferingStatus st s = Inr s'" "gossip_inv s'" "gossipSynced s' = st"
    by blast
  have a: "(Await s \<in> closed s) = (gossipSynced s = Done)"
    using s(2) by (simp add: gossip_inv_def Await_def)
  have b: "(Await s' \<in> closed s') = (st = Done)"
    using s'(2,3) by (simp add: gossip_inv_def Await_def)
  have c: "gossipSynced s \<noteq> Done \<and> st = Done \<longrightarrow>
         Await s' = Await s \<and> closed s' = insert (Await s) (closed s)"
    using setGossipBufferingStatus_to_done [OF s(2)] s'(1) by (auto simp: Await_def)
  have d: "gossipSynced s = Done \<and> st \<noteq> Done \<longrightarrow>
         Await s' = nextCh s \<and> Await s < nextCh s \<and> closed s' = closed s"
    using setGossipBufferingStatus_from_done [of s st] s'(1) s(2)
    by (auto simp: Await_def gossip_inv_def)
  have e: "(gossipSynced s = Done) = (st = Done) \<longrightarrow>
         Await s' = Await s \<and> closed s' = closed s"
    using setGossipBufferingStatus_same_side [of s st] s'(1) by (auto simp: Await_def)
  have f: "\<forall>more s''. st \<noteq> Done \<and> transitions more s' = Inr s'' \<longrightarrow>
         (Await s' \<in> closed s'') = (Done \<in> set more)"
    using subscriber_unblocks_iff [OF s'(2)] s'(3) by (auto simp: Await_def)
  from s(1) s'(1,3) a b c d e f show ?thesis by blast
qed

theorem await_channel_semantics_witness:
  "\<exists>s s'. transitions [inProgress2, Done] NewSync = Inr s \<and>
      setGossipBufferingStatus pending s = Inr s' \<and>
      gossipSynced s = Done \<and> Await s = 0 \<and> closed s = {0} \<and>
      gossipSynced s' = pending \<and> Await s' = 1 \<and> closed s' = {0} \<and>
      (\<exists>s''. transitions [inProgress2, Done] s' = Inr s'' \<and> Await s' \<in> closed s'')"
proof -
  have run: "transitions [inProgress2, Done] NewSync =
      Inr \<lparr>gossipSynced = Done, awaitCh = 0, closed = {0}, nextCh = 1\<rparr>"
    by (simp add: setGossipBufferingStatus_def notifySubscribers_def NewSync_def)
  have step: "setGossipBufferingStatus pending
        \<lparr>gossipSynced = Done, awaitCh = 0, closed = {0}, nextCh = 1\<rparr> =
      Inr \<lparr>gossipSynced = pending, awaitCh = 1, closed = {0}, nextCh = 2\<rparr>"
    by (simp add: setGossipBufferingStatus_def notifySubscribers_def)
  have more: "transitions [inProgress2, Done]
        \<lparr>gossipSynced = pending, awaitCh = 1, closed = {0}, nextCh = 2\<rparr> =
      Inr \<lparr>gossipSynced = Done, awaitCh = 1, closed = {1, 0}, nextCh = 2\<rparr>"
    by (simp add: setGossipBufferingStatus_def notifySubscribers_def)
  from await_channel_semantics [of "[inProgress2, Done]" pending]
  obtain s s' where h: "transitions [inProgress2, Done] NewSync = Inr s"
      "setGossipBufferingStatus pending s = Inr s'"
      "gossipSynced s = Done \<and> pending \<noteq> Done \<longrightarrow>
         Await s' = nextCh s \<and> Await s < nextCh s \<and> closed s' = closed s"
      "\<forall>more s''. pending \<noteq> Done \<and> transitions more s' = Inr s'' \<longrightarrow>
         (Await s' \<in> closed s'') = (Done \<in> set more)"
    by blast
  from h(1) run have s: "s = \<lparr>gossipSynced = Done, awaitCh = 0, closed = {0}, nextCh = 1\<rparr>"
    by simp
  from h(2) step s have s': "s' = \<lparr>gossipSynced = pending, awaitCh = 1, closed = {0}, nextCh = 2\<rparr>"
    by simp
  from h(4) more s'
  have "(Await s' \<in> closed \<lparr>gossipSynced = Done, awaitCh = 1, closed = {1, 0}, nextCh = 2\<rparr>) =
      (Done \<in> set [inProgress2, Done])"
    by blast
  then have "Await s' \<in> closed \<lparr>gossipSynced = Done, awaitCh = 1, closed = {1, 0}, nextCh = 2\<rparr>"
    by simp
  with h(1,2) s s' more show ?thesis
    by (simp add: Await_def)
qed

section \<open>Identifiers and blocks\<close>

text \<open>
  The package \<^verbatim>\<open>common/types\<close> is not among the sources.  The identifier types are
  modelled as numbers behind their own constructors, so that a block id (an integer
  in \<^verbatim>\<open>validation_queue.go\<close>: \<^verbatim>\<open>uint64(block.ID())\<close>) and a 32-byte hash stay
  different types, as in Go.
\<close>

datatype BlockID = BlockID nat
datatype Hash32 = Hash32 nat

type_synonym LayerID = nat
type_synonym TransactionID = nat
type_synonym ATXID = nat
type_synonym Peer = nat

text \<open>
  Modelled from the spec: \<^verbatim>\<open>BlockID.AsHash32\<close> and \<^verbatim>\<open>Block.Hash32\<close> are declared in
  \<^verbatim>\<open>common/types\<close>, which is missing.  A block is "content-addressed by a 32-byte hash",
  and the queue looks a fetched block up under the hash of the id it asked for: the id
  is embedded into the hashes one to one, and a block's hash is that of its id.
\<close>

fun AsHash32 :: "BlockID \<Rightarrow> Hash32" where
  "AsHash32 (BlockID n) = Hash32 n"

text \<open>The fields of \<^verbatim>\<open>types.Block\<close> the sync package reads; a nil pointer is \<open>None\<close>.\<close>

record Block =
  ID :: BlockID
  LayerIndex :: LayerID
  ATXID :: ATXID
  RefBlock :: "BlockID option"
  ActiveSet :: "ATXID list option"
  TxIDs :: "TransactionID list"
  ViewEdges :: "BlockID list"
  ForDiff :: "BlockID list"
  AgainstDiff :: "BlockID list"
  NeutralDiff :: "BlockID list"

definition Hash32_of :: "Block \<Rightarrow> Hash32" where
  "Hash32_of b = AsHash32 (ID b)"

section \<open>Block validation\<close>

text \<open>
  The loops of \<^verbatim>\<open>validateUniqueTxAtx\<close>: walk the ids with the set of those seen
  (\<^verbatim>\<open>mt\<close>, \<^verbatim>\<open>ma\<close>) and stop at the first one seen before.
\<close>

fun seenTwice :: "'a set \<Rightarrow> 'a list \<Rightarrow> bool" where
  "seenTwice seen [] = False"
| "seenTwice seen (x # xs) = (if x \<in> seen then True else seenTwice (insert x seen) xs)"

definition validateUniqueTxAtx :: "Block \<Rightarrow> error option" where
  "validateUniqueTxAtx b =
     (if seenTwice {} (TxIDs b) then Some errDupTx
      else (case ActiveSet b of
              None \<Rightarrow> None
            | Some atxs \<Rightarrow> if seenTwice {} atxs then Some errDupAtx else None))"

text \<open>
  What \<^verbatim>\<open>blockSyntacticValidation\<close> and \<^verbatim>\<open>fastValidation\<close> ask of the rest of the node:
  the eligibility validator, the configured golden ATX id and \<^verbatim>\<open>types.EmptyATXID\<close>, the
  mesh (\<^verbatim>\<open>GetBlock\<close>), the ATX queue (\<^verbatim>\<open>HandleAtxs\<close>), and the outcomes of
  \<^verbatim>\<open>fetchBlock\<close>, \<^verbatim>\<open>dataAvailability\<close> and \<^verbatim>\<open>validateBlockView\<close> (\<open>viewValidated\<close>),
  which wait for the network.  Each is a function of its arguments here.  \<^verbatim>\<open>validateVotes\<close> (not among the
  sources) is what the block queue's callback calls with the mesh's \<^verbatim>\<open>ForBlockInView\<close>
  and \<^verbatim>\<open>Hdist\<close>.
\<close>

record validators =
  BlockSignedAndEligible :: "Block \<Rightarrow> bool \<times> error option"
  GoldenATXID :: ATXID
  EmptyATXID :: ATXID
  meshGetBlock :: "BlockID \<Rightarrow> error option"
  fetchBlock :: "BlockID \<Rightarrow> bool"
  HandleAtxs :: "ATXID list \<Rightarrow> error option"
  dataAvailability :: "Block \<Rightarrow> error option"
  viewValidated :: "Block \<Rightarrow> bool"
  validateVotes :: "Block \<Rightarrow> bool"

definition fastValidation :: "validators \<Rightarrow> Block \<Rightarrow> error option" where
  "fastValidation v block =
     (case BlockSignedAndEligible v block of
        (eligible, err) \<Rightarrow>
          if err \<noteq> None \<or> \<not> eligible then Some (Errorf ''block eligibility check failed'')
          else (case validateUniqueTxAtx block of
                  Some e \<Rightarrow> Some e
                | None \<Rightarrow> None))"

definition fetchRefBlock :: "validators \<Rightarrow> Block \<Rightarrow> error option" where
  "fetchRefBlock v block =
     (case RefBlock block of
        None \<Rightarrow> Some (Errorf ''called fetch ref block with nil ref block'')
      | Some r \<Rightarrow>
          if meshGetBlock v r \<noteq> None then
            (if \<not> fetchBlock v r then Some (Errorf ''failed to fetch ref block'') else None)
          else None)"

definition fetchAllReferencedAtxs :: "validators \<Rightarrow> Block \<Rightarrow> error option" where
  "fetchAllReferencedAtxs v blk =
     (case ActiveSet blk of
        Some as \<Rightarrow>
          if length as > 0 then HandleAtxs v ([ATXID blk] @ as) else Some errZeroActiveSet
      | None \<Rightarrow>
          if RefBlock blk = None then Some errNoActiveSet else HandleAtxs v [ATXID blk])"

definition fetchBlockDataForValidation :: "validators \<Rightarrow> Block \<Rightarrow> error option" where
  "fetchBlockDataForValidation v blk =
     (if RefBlock blk \<noteq> None then
        (case fetchRefBlock v blk of
           Some e \<Rightarrow> Some e
         | None \<Rightarrow> fetchAllReferencedAtxs v blk)
      else fetchAllReferencedAtxs v blk)"

text \<open>
  \<^verbatim>\<open>blockSyntacticValidation\<close> returns the block's transactions and ATXs or an error;
  the model keeps the error (\<open>None\<close>: the block passed).
\<close>

definition blockSyntacticValidation :: "validators \<Rightarrow> Block \<Rightarrow> error option" where
  "blockSyntacticValidation v block =
     (if ATXID block = EmptyATXID v \<or> ATXID block = GoldenATXID v then Some errInvalidATXID
      else (case fetchBlockDataForValidation v block of
              Some e \<Rightarrow> Some e
            | None \<Rightarrow>
               (case fastValidation v block of
                  Some e \<Rightarrow> Some e
                | None \<Rightarrow>
                   (case dataAvailability v block of
                      Some e \<Rightarrow> Some (Errorf ''DataAvailabilty failed for block'')
                    | None \<Rightarrow>
                       if \<not> viewValidated v block
                       then Some (Errorf ''block not syntacticly valid'')
                       else None))))"

lemma seenTwice_iff: "seenTwice seen xs \<longleftrightarrow> \<not> distinct xs \<or> set xs \<inter> seen \<noteq> {}"
  by (induction xs arbitrary: seen) auto

lemma validateUniqueTxAtx_None_iff:
  "validateUniqueTxAtx b = None \<longleftrightarrow>
     distinct (TxIDs b) \<and> (\<forall>as. ActiveSet b = Some as \<longrightarrow> distinct as)"
  by (auto simp: validateUniqueTxAtx_def seenTwice_iff split: option.splits)

lemma fastValidation_duplicates:
  assumes "\<not> distinct (TxIDs b) \<or> (\<exists>as. ActiveSet b = Some as \<and> \<not> distinct as)"
  shows "fastValidation v b \<noteq> None"
proof -
  from assms have "validateUniqueTxAtx b \<noteq> None"
    by (auto simp: validateUniqueTxAtx_None_iff)
  then show ?thesis
    by (auto simp: fastValidation_def split: prod.splits option.splits)
qed

lemma blockSyntacticValidation_fast:
  "fastValidation v b \<noteq> None \<Longrightarrow> blockSyntacticValidation v b \<noteq> None"
  by (auto simp: blockSyntacticValidation_def split: option.splits)

lemma fetchBlockDataForValidation_zero:
  "ActiveSet b = Some [] \<Longrightarrow> fetchBlockDataForValidation v b \<noteq> None"
  by (auto simp: fetchBlockDataForValidation_def fetchAllReferencedAtxs_def split: option.splits)

lemma blockSyntacticValidation_zero:
  "ActiveSet b = Some [] \<Longrightarrow> blockSyntacticValidation v b \<noteq> None"
  using fetchBlockDataForValidation_zero [of b v]
  by (auto simp: blockSyntacticValidation_def split: option.splits)

lemma blockSyntacticValidation_atx:
  "ATXID b = GoldenATXID v \<or> ATXID b = EmptyATXID v \<Longrightarrow>
     blockSyntacticValidation v b = Some errInvalidATXID"
  by (auto simp: blockSyntacticValidation_def)

text \<open>An eligible block with an empty active set and the golden ATX id.\<close>

definition lenient :: validators where
  "lenient = \<lparr>BlockSignedAndEligible = (\<lambda>b. (True, None)), GoldenATXID = 1, EmptyATXID = 0,
     meshGetBlock = (\<lambda>i. None), fetchBlock = (\<lambda>i. True), HandleAtxs = (\<lambda>as. None),
     dataAvailability = (\<lambda>b. None), viewValidated = (\<lambda>b. True),
     validateVotes = (\<lambda>b. True)\<rparr>"

definition plainBlock :: Block where
  "plainBlock = \<lparr>ID = BlockID 5, LayerIndex = 3, ATXID = 7, RefBlock = None,
     ActiveSet = Some [8, 9], TxIDs = [1, 2], ViewEdges = [], ForDiff = [],
     AgainstDiff = [], NeutralDiff = []\<rparr>"

text \<open>
  Claim C4, as stated, fails: \<^verbatim>\<open>fastValidation\<close> accepts an eligible block whose active
  set is empty (and not nil), and one whose ATX id is the golden id or the empty id.
\<close>

theorem fastValidation_accepts_empty_active_set_and_golden:
  "fastValidation lenient (plainBlock\<lparr>ActiveSet := Some []\<rparr>) = None \<and>
   fastValidation lenient (plainBlock\<lparr>ATXID := GoldenATXID lenient\<rparr>) = None \<and>
   fastValidation lenient (plainBlock\<lparr>ATXID := EmptyATXID lenient\<rparr>) = None"
  by (simp add: fastValidation_def validateUniqueTxAtx_def lenient_def plainBlock_def)

text \<open>
  Claim C4, amended.  \<^verbatim>\<open>fastValidation\<close> returns an error for every block with a
  repeated transaction id or a repeated ATX id in its active set.  The empty active set
  and the golden or empty ATX id are rejected by \<^verbatim>\<open>blockSyntacticValidation\<close>, which
  checks the ATX id, fetches the referenced ATXs and then runs \<^verbatim>\<open>fastValidation\<close>: it
  returns an error for a block with any of the four defects.
\<close>

theorem duplicate_rejection:
  "(\<not> distinct (TxIDs b) \<or> (\<exists>as. ActiveSet b = Some as \<and> \<not> distinct as)
      \<longrightarrow> fastValidation v b \<noteq> None) \<and>
   (\<not> distinct (TxIDs b) \<or> (\<exists>as. ActiveSet b = Some as \<and> \<not> distinct as) \<or>
    ActiveSet b = Some [] \<or> ATXID b = GoldenATXID v \<or> ATXID b = EmptyATXID v
      \<longrightarrow> blockSyntacticValidation v b \<noteq> None)"
proof -
  have fast: "\<not> distinct (TxIDs b) \<or> (\<exists>as. ActiveSet b = Some as \<and> \<not> distinct as)
      \<longrightarrow> fastValidation v b \<noteq> None"
    using fastValidation_duplicates [of b v] by blast
  moreover have "blockSyntacticValidation v b \<noteq> None"
    if "\<not> distinct (TxIDs b) \<or> (\<exists>as. ActiveSet b = Some as \<and> \<not> distinct as) \<or>
        ActiveSet b = Some [] \<or> ATXID b = GoldenATXID v \<or> ATXID b = EmptyATXID v"
    using that fast blockSyntacticValidation_fast [of v b] blockSyntacticValidation_zero [of b v]
      blockSyntacticValidation_atx [of b v]
    by auto
  ultimately show ?thesis by blast
qed

theorem duplicate_rejection_witness:
  "fastValidation lenient (plainBlock\<lparr>TxIDs := [4, 6, 4]\<rparr>) = Some errDupTx \<and>
   fastValidation lenient (plainBlock\<lparr>ActiveSet := Some [8, 8]\<rparr>) = Some errDupAtx \<and>
   blockSyntacticValidation lenient (plainBlock\<lparr>TxIDs := [4, 6, 4]\<rparr>) = Some errDupTx \<and>
   blockSyntacticValidation lenient (plainBlock\<lparr>ActiveSet := Some []\<rparr>) = Some errZeroActiveSet \<and>
   blockSyntacticValidation lenient (plainBlock\<lparr>ATXID := 1\<rparr>) = Some errInvalidATXID \<and>
   blockSyntacticValidation lenient plainBlock = None"
  using duplicate_rejection [of "plainBlock\<lparr>TxIDs := [4, 6, 4]\<rparr>" lenient]
    duplicate_rejection [of "plainBlock\<lparr>ActiveSet := Some []\<rparr>" lenient]
  by (simp add: blockSyntacticValidation_def fetchBlockDataForValidation_def
      fetchAllReferencedAtxs_def fastValidation_def validateUniqueTxAtx_def
      lenient_def plainBlock_def)

section \<open>Fetching layer hashes and layer ids\<close>

text \<open>
  What one peer does with a request for ids: the request factory fails, the exit
  channel fires first, the timeout fires first, or a value arrives on the channel
  (\<open>None\<close>: the nil the worker sends for a reply it could not read).
\<close>

datatype 'a reply = FactoryFailed error | Interrupt | Timeout | Reply "'a list option"

text \<open>
  The two accumulators of \<^verbatim>\<open>fetchLayerBlockIds\<close> (\<^verbatim>\<open>idSet\<close>, \<^verbatim>\<open>ids\<close>), and the peers
  it logged the warning "layer ids hash does not match request" for.
\<close>

record 'a fetched =
  idSet :: "'a set"
  ids :: "'a list"
  warned :: "Peer list"

fun addIds :: "'a list \<Rightarrow> 'a fetched \<Rightarrow> 'a fetched" where
  "addIds [] acc = acc"
| "addIds (bid # rest) acc =
     addIds rest
       (if bid \<notin> idSet acc
        then acc\<lparr>idSet := insert bid (idSet acc), ids := ids acc @ [bid]\<rparr>
        else acc)"

text \<open>
  The loop labelled \<^verbatim>\<open>NextHash\<close>, over the peers that reported hash \<open>h\<close>.  \<open>ask\<close> is
  the peer's behaviour, \<open>calc\<close> is \<^verbatim>\<open>types.CalcBlocksHash32\<close> (or \<^verbatim>\<open>CalcATXIdsHash32\<close>),
  which is not among the sources.
\<close>

fun NextHash ::
  "(Peer \<Rightarrow> 'a reply) \<Rightarrow> ('a list \<Rightarrow> Hash32) \<Rightarrow> Hash32 \<Rightarrow> Peer list \<Rightarrow> 'a fetched
     \<Rightarrow> error + 'a fetched" where
  "NextHash ask calc h [] acc = Inr acc"
| "NextHash ask calc h (peer # peers) acc =
     (case ask peer of
        FactoryFailed err \<Rightarrow> Inl err
      | Interrupt \<Rightarrow> Inl (Errorf ''interupt'')
      | Timeout \<Rightarrow> NextHash ask calc h peers acc
      | Reply None \<Rightarrow> NextHash ask calc h peers acc
      | Reply (Some v) \<Rightarrow>
          Inr (addIds v (if h \<noteq> calc v then acc\<lparr>warned := warned acc @ [peer]\<rparr> else acc)))"

text \<open>
  The outer loop over the map from hash to peers; the list gives the entries in the
  order the \<^verbatim>\<open>range\<close> visits them.
\<close>

fun forEachHash ::
  "(Peer \<Rightarrow> 'a reply) \<Rightarrow> ('a list \<Rightarrow> Hash32) \<Rightarrow> (Hash32 \<times> Peer list) list \<Rightarrow> 'a fetched
     \<Rightarrow> error + 'a fetched" where
  "forEachHash ask calc [] acc = Inr acc"
| "forEachHash ask calc ((h, peers) # m) acc =
     (case NextHash ask calc h peers acc of
        Inl err \<Rightarrow> Inl err
      | Inr acc' \<Rightarrow> forEachHash ask calc m acc')"

definition fetchLayerBlockIds ::
  "(Peer \<Rightarrow> BlockID reply) \<Rightarrow> (BlockID list \<Rightarrow> Hash32) \<Rightarrow> (Hash32 \<times> Peer list) list
     \<Rightarrow> error + BlockID fetched" where
  "fetchLayerBlockIds ask CalcBlocksHash32 m =
     forEachHash ask CalcBlocksHash32 m \<lparr>idSet = {}, ids = [], warned = []\<rparr>"

definition fetchEpochAtxs ::
  "(Peer \<Rightarrow> ATXID reply) \<Rightarrow> (ATXID list \<Rightarrow> Hash32) \<Rightarrow> (Hash32 \<times> Peer list) list
     \<Rightarrow> error + ATXID fetched" where
  "fetchEpochAtxs ask CalcATXIdsHash32 m =
     forEachHash ask CalcATXIdsHash32 m \<lparr>idSet = {}, ids = [], warned = []\<rparr>"

text \<open>
  \<^verbatim>\<open>fetchLayerHashes\<close>: the values the peers worker sends on its output channel, in
  order (\<open>None\<close>: a value that is nil or not a \<^verbatim>\<open>*peerHashPair\<close>).  The map \<open>m\<close> is kept
  as an association list.
\<close>

record peerHashPair =
  peer :: Peer
  hash :: Hash32

fun collectHashes ::
  "Hash32 \<Rightarrow> peerHashPair option list \<Rightarrow> (Hash32 \<times> Peer list) list \<times> bool
     \<Rightarrow> (Hash32 \<times> Peer list) list \<times> bool" where
  "collectHashes emptyLayer [] acc = acc"
| "collectHashes emptyLayer (None # outs) acc = collectHashes emptyLayer outs acc"
| "collectHashes emptyLayer (Some pair # outs) (m, layerHasBlocks) =
     collectHashes emptyLayer outs
       (if hash pair \<noteq> emptyLayer
        then (AList.update (hash pair)
                ((case map_of m (hash pair) of None \<Rightarrow> [] | Some ps \<Rightarrow> ps) @ [peer pair]) m,
              True)
        else (m, layerHasBlocks))"

definition fetchLayerHashes ::
  "Hash32 \<Rightarrow> peerHashPair option list \<Rightarrow> error + (Hash32 \<times> Peer list) list" where
  "fetchLayerHashes emptyLayer outs =
     (case collectHashes emptyLayer outs ([], False) of
        (m, layerHasBlocks) \<Rightarrow>
          if \<not> layerHasBlocks then Inl errNoBlocksInLayer
          else if length m = 0
          then Inl (Errorf ''could not get layer hashes from any peer'')
          else Inr m)"

text \<open>
  \<^verbatim>\<open>types.Layer\<close>, with \<^verbatim>\<open>NewLayer\<close> and \<^verbatim>\<open>NewExistingLayer\<close> (from the missing
  package: a layer is its index and its blocks).
\<close>

record Layer =
  index :: LayerID
  blocks :: "Block list"

definition NewLayer :: "LayerID \<Rightarrow> Layer" where
  "NewLayer l = \<lparr>index = l, blocks = []\<rparr>"

definition NewExistingLayer :: "LayerID \<Rightarrow> Block list \<Rightarrow> Layer" where
  "NewExistingLayer l bs = \<lparr>index = l, blocks = bs\<rparr>"

text \<open>
  What \<^verbatim>\<open>getLayerFromNeighbors\<close> meets outside itself: the peers known, the sentinel
  \<^verbatim>\<open>emptyLayer\<close>, the output of the peers worker, whether the syncer is closed at its
  first and second check, the peers' replies to the layer-ids request, and the result of
  \<^verbatim>\<open>syncLayer\<close>, which waits for the block queue.  The input vector it fetches and
  saves afterwards does not reach its result.
\<close>

record neighbors =
  GetPeers :: "Peer list"
  emptyLayer :: Hash32
  hashOutputs :: "LayerID \<Rightarrow> peerHashPair option list"
  isClosed1 :: bool
  isClosed2 :: bool
  layerIds :: "LayerID \<Rightarrow> Peer \<Rightarrow> BlockID reply"
  CalcBlocksHash32 :: "BlockID list \<Rightarrow> Hash32"
  syncLayer :: "LayerID \<Rightarrow> BlockID list \<Rightarrow> Block list \<times> error option"

definition getLayerFromNeighbors :: "neighbors \<Rightarrow> LayerID \<Rightarrow> error + Layer" where
  "getLayerFromNeighbors n currentSyncLayer =
     (if length (GetPeers n) = 0 then Inl (Errorf ''no peers '')
      else (case fetchLayerHashes (emptyLayer n) (hashOutputs n currentSyncLayer) of
        Inl err \<Rightarrow>
          if err = errNoBlocksInLayer then Inr (NewLayer currentSyncLayer) else Inl err
      | Inr m \<Rightarrow>
          if isClosed1 n then Inl (Errorf ''interupt'')
          else (case fetchLayerBlockIds (layerIds n currentSyncLayer) (CalcBlocksHash32 n) m of
            Inl err \<Rightarrow> Inl err
          | Inr got \<Rightarrow>
              if isClosed2 n then Inl (Errorf ''interupt'')
              else (case syncLayer n currentSyncLayer (ids got) of
                (blocksArr, err) \<Rightarrow>
                  if length blocksArr = 0 \<or> err \<noteq> None
                  then Inl (Errorf ''could not get blocks for layer'')
                  else Inr (NewExistingLayer currentSyncLayer blocksArr)))))"

lemma collectHashes_all_empty:
  assumes "\<forall>out \<in> set outs. \<forall>pair. out = Some pair \<longrightarrow> hash pair = e"
  shows "collectHashes e outs acc = acc"
  using assms
proof (induction outs arbitrary: acc)
  case Nil
  then show ?case by simp
next
  case (Cons out outs)
  then show ?case by (cases out; cases acc) simp_all
qed

lemma fetchLayerHashes_all_empty:
  assumes "\<forall>out \<in> set outs. \<forall>pair. out = Some pair \<longrightarrow> hash pair = e"
  shows "fetchLayerHashes e outs = Inl errNoBlocksInLayer"
  by (simp add: fetchLayerHashes_def collectHashes_all_empty [OF assms])

text \<open>
  Two peers reported hash 1 for the layer.  The first answers the layer-ids request
  with block 7, whose hash is 2; the second with block 8, whose hash is 1.
\<close>

definition twoReplies :: "Peer \<Rightarrow> nat reply" where
  "twoReplies p = (if p = 1 then Reply (Some [7]) else Reply (Some [8]))"

definition twoBlockReplies :: "Peer \<Rightarrow> BlockID reply" where
  "twoBlockReplies p = (if p = 1 then Reply (Some [BlockID 7]) else Reply (Some [BlockID 8]))"

definition hashOfIds :: "'a \<Rightarrow> 'a list \<Rightarrow> Hash32" where
  "hashOfIds good v = (if v = [good] then Hash32 1 else Hash32 2)"

text \<open>
  Claim C3 on the code.  The response of peer 1 does not hash to the hash asked for;
  \<^verbatim>\<open>fetchLayerBlockIds\<close> and \<^verbatim>\<open>fetchEpochAtxs\<close> log the warning, add its ids to the
  result all the same, and leave the loop over the peers of that hash: peer 2, whose
  response matches, is never asked.
\<close>

theorem mismatched_response_is_kept:
  "hashOfIds (BlockID 8) [BlockID 7] \<noteq> Hash32 1 \<and>
   fetchLayerBlockIds twoBlockReplies (hashOfIds (BlockID 8)) [(Hash32 1, [1, 2])] =
     Inr \<lparr>idSet = {BlockID 7}, ids = [BlockID 7], warned = [1]\<rparr> \<and>
   fetchEpochAtxs twoReplies (hashOfIds 8) [(Hash32 1, [1, 2])] =
     Inr \<lparr>idSet = {7}, ids = [7], warned = [1]\<rparr>"
  by (simp add: fetchLayerBlockIds_def fetchEpochAtxs_def twoBlockReplies_def twoReplies_def
      hashOfIds_def)

text \<open>
  Claim C7.  The node has at least one peer (with none, \<^verbatim>\<open>getLayerFromNeighbors\<close>
  returns "no peers" before it asks anything), and every hash the peers worker reports
  for the layer is the empty-layer sentinel.  Then \<^verbatim>\<open>fetchLayerHashes\<close> returns
  \<^verbatim>\<open>errNoBlocksInLayer\<close> and \<^verbatim>\<open>getLayerFromNeighbors\<close> returns, with no error, the layer
  \<^verbatim>\<open>NewLayer\<close> builds, which has no blocks.
\<close>

theorem empty_layer_from_neighbors:
  assumes "GetPeers n \<noteq> []"
    and "\<forall>out \<in> set (hashOutputs n l). \<forall>pair. out = Some pair \<longrightarrow> hash pair = emptyLayer n"
  shows "fetchLayerHashes (emptyLayer n) (hashOutputs n l) = Inl errNoBlocksInLayer \<and>
         getLayerFromNeighbors n l = Inr (NewLayer l) \<and> blocks (NewLayer l) = []"
  using assms(1) fetchLayerHashes_all_empty [OF assms(2)]
  by (simp add: getLayerFromNeighbors_def NewLayer_def)

definition quietNeighbors :: neighbors where
  "quietNeighbors = \<lparr>GetPeers = [1, 2], emptyLayer = Hash32 0,
     hashOutputs = (\<lambda>l. [Some \<lparr>peer = 1, hash = Hash32 0\<rparr>, None, Some \<lparr>peer = 2, hash = Hash32 0\<rparr>]),
     isClosed1 = False, isClosed2 = False,
     layerIds = (\<lambda>l p. Timeout), CalcBlocksHash32 = (\<lambda>v. Hash32 1),
     syncLayer = (\<lambda>l v. ([], None))\<rparr>"

theorem empty_layer_from_neighbors_witness:
  "GetPeers quietNeighbors \<noteq> [] \<and>
   getLayerFromNeighbors quietNeighbors 4 = Inr \<lparr>index = 4, blocks = []\<rparr>"
proof -
  have peers: "GetPeers quietNeighbors \<noteq> []"
    by (simp add: quietNeighbors_def)
  have sentinel: "\<forall>out \<in> set (hashOutputs quietNeighbors 4).
      \<forall>pair. out = Some pair \<longrightarrow> hash pair = emptyLayer quietNeighbors"
    by (auto simp: quietNeighbors_def)
  from empty_layer_from_neighbors [OF peers sentinel] peers show ?thesis
    by (simp add: NewLayer_def)
qed

section \<open>The block queue\<close>

text \<open>
  A job id is an \<^verbatim>\<open>interface{}\<close>: the queue is given block ids (\<^verbatim>\<open>handleBlockDependencies\<close>,
  \<^verbatim>\<open>validateBlockView\<close>), layer ids (\<^verbatim>\<open>syncLayer\<close>, \<^verbatim>\<open>getBlocks\<close>) and hashes
  (\<^verbatim>\<open>fetchBlock\<close>).  Two keys of different dynamic type are different keys.
\<close>

datatype job = BlockJob BlockID | LayerJob LayerID | HashJob Hash32

text \<open>
  What a completion callback can reach outside the queue: the mesh's block store and
  the channels the waiting callers read (every value sent, oldest first).
\<close>

record world =
  mesh :: "BlockID set"
  sent :: "(chan \<times> bool) list"

text \<open>A callback takes the outcome and returns its error.\<close>

type_synonym callback = "bool \<Rightarrow> world \<Rightarrow> error option \<times> world"

text \<open>
  Modelled from the spec: the mesh (\<^verbatim>\<open>GetBlock\<close>, \<^verbatim>\<open>AddBlockWithTxs\<close>) is not among the
  sources.  \<^verbatim>\<open>GetBlock\<close> finds the blocks "already in the persistent block store";
  \<^verbatim>\<open>AddBlockWithTxs\<close> does "admit the block with its txs and atxs into the mesh", and
  answers \<^verbatim>\<open>ErrAlreadyExist\<close> for a block it has.
\<close>

definition GetBlock :: "world \<Rightarrow> BlockID \<Rightarrow> error option" where
  "GetBlock w i = (if i \<in> mesh w then None else Some (Errorf ''block not found''))"

definition AddBlockWithTxs :: "Block \<Rightarrow> world \<Rightarrow> error option \<times> world" where
  "AddBlockWithTxs blk w =
     (if ID blk \<in> mesh w then (Some ErrAlreadyExist, w)
      else (None, w\<lparr>mesh := insert (ID blk) (mesh w)\<rparr>))"

text \<open>
  The events of a run, in program order: taking and releasing the queue's mutex, a
  write to (or delete from) one of the four maps, and the call of a job's callback with
  an outcome.
\<close>

datatype field = F_callbacks | F_depMap | F_reverseDepMap | F_visited

datatype event = Lock | Unlock | Write field | Invoke job bool

text \<open>
  \<^verbatim>\<open>blockQueue\<close>.  The Go maps are association lists read with \<open>map_of\<close> and changed
  with \<open>AList.update\<close> and \<open>AList.delete\<close>; \<open>queue\<close> is the channel of the embedded
  \<^verbatim>\<open>fetchQueue\<close>, \<open>outside\<close> what the embedded \<^verbatim>\<open>ValidationInfra\<close> and the callbacks
  act on.
\<close>

record blockQueue =
  callbacks :: "(job \<times> callback) list"
  depMap :: "(job \<times> Hash32 set) list"
  reverseDepMap :: "(Hash32 \<times> job list) list"
  visited :: "Hash32 set"
  queue :: "Hash32 list list"
  outside :: world
  trace :: "event list"

definition logged :: "event \<Rightarrow> blockQueue \<Rightarrow> blockQueue" where
  "logged e vq = vq\<lparr>trace := trace vq @ [e]\<rparr>"

definition NewValidationQueue :: "world \<Rightarrow> blockQueue" where
  "NewValidationQueue w = \<lparr>callbacks = [], depMap = [], reverseDepMap = [], visited = {},
     queue = [], outside = w, trace = []\<rparr>"

definition inQueue :: "blockQueue \<Rightarrow> Hash32 \<Rightarrow> bool" where
  "inQueue vq i =
     (if map_of (reverseDepMap vq) i \<noteq> None then True
      else if i \<in> visited vq then True
      else False)"

text \<open>
  Modelled from the spec: \<^verbatim>\<open>fetchQueue.addToPending\<close> is not among the sources; it does
  "enqueue the unresolved children into the block fetch pipeline".
\<close>

definition addToPending :: "Hash32 list \<Rightarrow> blockQueue \<Rightarrow> blockQueue" where
  "addToPending idsToPush vq = vq\<lparr>queue := queue vq @ [idsToPush]\<rparr>"

text \<open>
  The body of the loop of \<^verbatim>\<open>removefromDepMaps\<close>, for one waiting job \<open>dep\<close>.
  \<^verbatim>\<open>delete(vq.depMap[dep], block)\<close> changes the set stored for \<open>dep\<close> and does nothing
  when there is none; \<^verbatim>\<open>len(vq.depMap[dep]) == 0\<close> holds for a missing set too.
\<close>

definition removeDep ::
  "Hash32 \<Rightarrow> bool \<Rightarrow> job \<Rightarrow> blockQueue \<times> Hash32 list \<Rightarrow> blockQueue \<times> Hash32 list" where
  "removeDep block valid dep st =
     (case st of (vq, doneBlocks) \<Rightarrow>
        let vq1 = (case map_of (depMap vq) dep of
                     None \<Rightarrow> vq
                   | Some ds \<Rightarrow>
                       logged (Write F_depMap)
                         (vq\<lparr>depMap := AList.update dep (ds - {block}) (depMap vq)\<rparr>))
        in if (case map_of (depMap vq1) dep of None \<Rightarrow> True | Some ds \<Rightarrow> ds = {}) then
             let vq2 = logged (Write F_depMap) (vq1\<lparr>depMap := AList.delete dep (depMap vq1)\<rparr>)
             in (case map_of (callbacks vq2) dep of
                   Some callback \<Rightarrow>
                     (case callback valid (outside vq2) of
                        (err, w) \<Rightarrow>
                          let vq3 = logged (Invoke dep valid) (vq2\<lparr>outside := w\<rparr>)
                          in if err \<noteq> None then (vq3, doneBlocks)
                             else
                               let vq4 = logged (Write F_callbacks)
                                           (vq3\<lparr>callbacks := AList.delete dep (callbacks vq3)\<rparr>)
                               in (vq4, (case dep of
                                           BlockJob i \<Rightarrow> doneBlocks @ [AsHash32 i]
                                         | _ \<Rightarrow> doneBlocks)))
                 | None \<Rightarrow> (vq2, doneBlocks))
           else (vq1, doneBlocks))"

definition removefromDepMaps ::
  "Hash32 \<Rightarrow> bool \<Rightarrow> Hash32 list \<Rightarrow> blockQueue \<Rightarrow> blockQueue \<times> Hash32 list" where
  "removefromDepMaps block valid doneBlocks vq =
     (case fold (removeDep block valid)
             (case map_of (reverseDepMap vq) block of None \<Rightarrow> [] | Some deps \<Rightarrow> deps)
             (vq, doneBlocks) of
        (vq', doneBlocks') \<Rightarrow>
          (logged (Write F_reverseDepMap)
             (vq'\<lparr>reverseDepMap := AList.delete block (reverseDepMap vq')\<rparr>),
           doneBlocks'))"

lemma length_delete_less:
  "map_of al k = Some v \<Longrightarrow> length (AList.delete k al) < length al"
  by (induction al) (auto simp: less_Suc_eq_le AList.length_delete_le split: if_splits)

lemma removeDep_measure:
  "removeDep block valid dep (vq, ds) = (vq', ds') \<Longrightarrow>
     length (callbacks vq') + length ds' \<le> length (callbacks vq) + length ds"
  by (auto simp: removeDep_def Let_def logged_def dest!: length_delete_less
      split: option.splits if_splits prod.splits job.splits)

lemma fold_removeDep_measure:
  "fold (removeDep block valid) deps (vq, ds) = (vq', ds') \<Longrightarrow>
     length (callbacks vq') + length ds' \<le> length (callbacks vq) + length ds"
proof (induction deps arbitrary: vq ds)
  case Nil
  then show ?case by simp
next
  case (Cons dep deps)
  obtain vq1 ds1 where step: "removeDep block valid dep (vq, ds) = (vq1, ds1)"
    by (cases "removeDep block valid dep (vq, ds)")
  with Cons.prems have "fold (removeDep block valid) deps (vq1, ds1) = (vq', ds')"
    by simp
  from Cons.IH [OF this] removeDep_measure [OF step] show ?case by linarith
qed

lemma removefromDepMaps_measure:
  "removefromDepMaps block valid ds vq = (vq', ds') \<Longrightarrow>
     length (callbacks vq') + length ds' \<le> length (callbacks vq) + length ds"
  by (auto simp: removefromDepMaps_def logged_def split: prod.splits
      dest!: fold_removeDep_measure)

text \<open>
  The loop of \<^verbatim>\<open>updateDependencies\<close> that empties \<^verbatim>\<open>doneQueue\<close>.  It ends: a hash is
  appended only when a callback is deleted.
\<close>

function drain :: "bool \<Rightarrow> Hash32 list \<Rightarrow> blockQueue \<Rightarrow> blockQueue" where
  "drain valid [] vq = vq"
| "drain valid (block # doneQueue) vq =
     (case removefromDepMaps block valid doneQueue vq of
        (vq', doneQueue') \<Rightarrow> drain valid doneQueue' vq')"
  by pat_completeness auto
termination
proof (relation "measure (\<lambda>(valid, doneQueue, vq). length (callbacks vq) + length doneQueue)")
  show "wf (measure (\<lambda>(valid, doneQueue, vq). length (callbacks vq) + length doneQueue))"
    by simp
next
  fix valid block doneQueue vq x1 x2
  assume "(x1, x2) = removefromDepMaps block valid doneQueue vq"
  then have "removefromDepMaps block valid doneQueue vq = (x1, x2)" by simp
  from removefromDepMaps_measure [OF this]
  show "((valid, x2, x1), (valid, block # doneQueue, vq))
      \<in> measure (\<lambda>(valid, doneQueue, vq). length (callbacks vq) + length doneQueue)"
    by simp
qed

definition updateDependencies :: "Hash32 \<Rightarrow> bool \<Rightarrow> blockQueue \<Rightarrow> blockQueue" where
  "updateDependencies block valid vq =
     (let vq1 = logged Lock vq;
          vq2 = logged (Write F_depMap) (vq1\<lparr>depMap := AList.delete (HashJob block) (depMap vq1)\<rparr>);
          vq3 = logged (Write F_callbacks)
                  (vq2\<lparr>callbacks := AList.delete (HashJob block) (callbacks vq2)\<rparr>);
          vq4 = logged (Write F_visited) (vq3\<lparr>visited := visited vq3 - {block}\<rparr>)
      in (case removefromDepMaps block valid [] vq4 of
            (vq5, doneQueue) \<Rightarrow> logged Unlock (drain valid doneQueue vq5)))"

text \<open>The body of the loop of \<^verbatim>\<open>addDependencies\<close>, for one child \<open>i\<close>.\<close>

definition addDep ::
  "job \<Rightarrow> BlockID \<Rightarrow> blockQueue \<times> Hash32 set \<times> Hash32 list
     \<Rightarrow> blockQueue \<times> Hash32 set \<times> Hash32 list" where
  "addDep jobId i st =
     (case st of (vq, dependencys, idsToPush) \<Rightarrow>
        let bid = AsHash32 i;
            registered = logged (Write F_reverseDepMap)
              (vq\<lparr>reverseDepMap :=
                    AList.update bid
                      ((case map_of (reverseDepMap vq) bid of None \<Rightarrow> [] | Some js \<Rightarrow> js) @ [jobId])
                      (reverseDepMap vq)\<rparr>)
        in if inQueue vq bid then (registered, insert bid dependencys, idsToPush)
           else if GetBlock (outside vq) i \<noteq> None
           then (registered, insert bid dependencys, idsToPush @ [AsHash32 i])
           else (vq, dependencys, idsToPush))"

definition addDependencies ::
  "job \<Rightarrow> BlockID list \<Rightarrow> callback \<Rightarrow> blockQueue \<Rightarrow> (bool \<times> error option) \<times> blockQueue" where
  "addDependencies jobId blks finishCallback vq =
     (let vq1 = logged Lock vq;
          vq2 = logged (Write F_callbacks)
                  (vq1\<lparr>callbacks := AList.update jobId finishCallback (callbacks vq1)\<rparr>)
      in (case fold (addDep jobId) blks (vq2, {}, []) of
            (vq3, dependencys, idsToPush) \<Rightarrow>
              let vq4 = logged Unlock vq3;
                  vq5 = (if length idsToPush > 0 then addToPending idsToPush vq4 else vq4)
              in if dependencys = {} then
                   (case finishCallback True (outside vq5) of
                      (err, w) \<Rightarrow> ((False, err), logged (Invoke jobId True) (vq5\<lparr>outside := w\<rparr>)))
                 else
                   ((True, None),
                    logged (Write F_depMap)
                      (vq5\<lparr>depMap := AList.update jobId dependencys (depMap vq5)\<rparr>))))"

definition finishBlockCallback :: "validators \<Rightarrow> Block \<Rightarrow> callback" where
  "finishBlockCallback v block res w =
     (if \<not> res then (None, w)
      else (case dataAvailability v block of
              Some e \<Rightarrow> (Some (Errorf ''DataAvailabilty failed for block''), w)
            | None \<Rightarrow>
                if \<not> validateVotes v block
                then (Some (Errorf ''validate votes failed for block''), w)
                else (case AddBlockWithTxs block w of
                        (err, w') \<Rightarrow>
                          if err \<noteq> None \<and> err \<noteq> Some ErrAlreadyExist then (err, w')
                          else (None, w'))))"

definition handleBlockDependencies :: "validators \<Rightarrow> Block \<Rightarrow> blockQueue \<Rightarrow> blockQueue" where
  "handleBlockDependencies v blk vq =
     (case addDependencies (BlockJob (ID blk)) (ViewEdges blk) (finishBlockCallback v blk) vq of
        ((res, err), vq1) \<Rightarrow>
          let vq2 = (if err \<noteq> None then updateDependencies (Hash32_of blk) False vq1 else vq1)
          in if res = False then updateDependencies (Hash32_of blk) True vq2 else vq2)"

text \<open>
  \<^verbatim>\<open>handleBlock\<close>: the map \<open>mp\<close> from hash to fetched block, then the loop over the ids
  of the fetch job.  A block that fails \<^verbatim>\<open>fastValidation\<close> ends the loop (\<^verbatim>\<open>return\<close>).
\<close>

fun itemsByHash :: "Block list \<Rightarrow> (Hash32 \<times> Block) list \<Rightarrow> (Hash32 \<times> Block) list" where
  "itemsByHash [] mp = mp"
| "itemsByHash (item # items) mp = itemsByHash items (AList.update (Hash32_of item) item mp)"

fun handleIds ::
  "validators \<Rightarrow> (Hash32 \<times> Block) list \<Rightarrow> Hash32 list \<Rightarrow> blockQueue \<Rightarrow> blockQueue" where
  "handleIds v mp [] vq = vq"
| "handleIds v mp (i # rest) vq =
     (case map_of mp i of
        None \<Rightarrow> handleIds v mp rest (updateDependencies i False vq)
      | Some block \<Rightarrow>
          let vq1 = logged (Write F_visited) (vq\<lparr>visited := insert i (visited vq)\<rparr>)
          in (case fastValidation v block of
                Some err \<Rightarrow> updateDependencies i False vq1
              | None \<Rightarrow> handleIds v mp rest (handleBlockDependencies v block vq1)))"

definition handleBlock :: "validators \<Rightarrow> Hash32 list \<Rightarrow> Block list \<Rightarrow> blockQueue \<Rightarrow> blockQueue" where
  "handleBlock v bjb_ids bjb_items vq = handleIds v (itemsByHash bjb_items []) bjb_ids vq"

text \<open>
  The callback \<^verbatim>\<open>foo\<close> that \<^verbatim>\<open>syncLayer\<close>, \<^verbatim>\<open>getBlocks\<close>, \<^verbatim>\<open>validateBlockView\<close> and
  \<^verbatim>\<open>fetchBlock\<close> hand to the queue: it sends the outcome on the caller's channel and
  returns nil.
\<close>

definition foo :: "chan \<Rightarrow> callback" where
  "foo ch res w = (None, w\<lparr>sent := sent w @ [(ch, res)]\<rparr>)"

text \<open>
  \<^verbatim>\<open>getBlocks\<close>.  When the job is pending it waits in a \<^verbatim>\<open>select\<close>: either the exit
  channel is closed first, or the outcome arrives on \<open>ch\<close>.  Which of the two happens is
  the argument \<open>sel\<close>.  \<^verbatim>\<open>GetBlocks\<close> takes its job id from \<^verbatim>\<open>rand.Int31()\<close>, here \<open>rnd\<close>.
\<close>

datatype select = ExitClosed | Received bool

definition getBlocks ::
  "LayerID \<Rightarrow> BlockID list \<Rightarrow> chan \<Rightarrow> select \<Rightarrow> blockQueue \<Rightarrow> error option \<times> blockQueue" where
  "getBlocks jobID blockIds ch sel vq =
     (case addDependencies (LayerJob jobID) blockIds (foo ch) vq of
        ((res, err), vq') \<Rightarrow>
          if err \<noteq> None then (Some (Errorf ''failed adding layer blocks to queue''), vq')
          else if res = False then (None, vq')
          else (case sel of
                  ExitClosed \<Rightarrow> (Some (Errorf ''received interrupt''), vq')
                | Received result \<Rightarrow> if \<not> result then (None, vq') else (None, vq')))"

definition GetBlocks ::
  "BlockID list \<Rightarrow> nat \<Rightarrow> chan \<Rightarrow> select \<Rightarrow> blockQueue \<Rightarrow> error option \<times> blockQueue" where
  "GetBlocks blockIds rnd ch sel vq = getBlocks rnd blockIds ch sel vq"



text \<open>
  Reading a trace.  \<open>invoked\<close> lists the callback calls.  \<open>guarded ok held es\<close> walks
  the events with the state of the mutex (\<open>held\<close>) and asks \<open>ok\<close> of every write and
  every callback call.
\<close>

fun invoked :: "event list \<Rightarrow> (job \<times> bool) list" where
  "invoked [] = []"
| "invoked (Invoke j r # es) = (j, r) # invoked es"
| "invoked (e # es) = invoked es"

fun guarded :: "(event \<Rightarrow> bool \<Rightarrow> bool) \<Rightarrow> bool \<Rightarrow> event list \<Rightarrow> bool" where
  "guarded ok held [] = True"
| "guarded ok held (Lock # es) = guarded ok True es"
| "guarded ok held (Unlock # es) = guarded ok False es"
| "guarded ok held (e # es) = (ok e held \<and> guarded ok held es)"

text \<open>Every write to a map happens with the mutex held.\<close>

definition writesHeld :: "event \<Rightarrow> bool \<Rightarrow> bool" where
  "writesHeld e held = (case e of Write f \<Rightarrow> held | _ \<Rightarrow> True)"

text \<open>Every callback is called with the mutex not held.\<close>

definition invokesFree :: "event \<Rightarrow> bool \<Rightarrow> bool" where
  "invokesFree e held = (case e of Invoke j r \<Rightarrow> \<not> held | _ \<Rightarrow> True)"

text \<open>Every write and every callback call happens with the mutex held.\<close>

definition allHeld :: "event \<Rightarrow> bool \<Rightarrow> bool" where
  "allHeld e held = held"

text \<open>
  Writes to \<^verbatim>\<open>callbacks\<close> and \<^verbatim>\<open>reverseDepMap\<close> happen with the mutex held, callback
  calls with the mutex not held; nothing is asked of the other writes.
\<close>

definition addDiscipline :: "event \<Rightarrow> bool \<Rightarrow> bool" where
  "addDiscipline e held =
     (case e of
        Write F_callbacks \<Rightarrow> held
      | Write F_reverseDepMap \<Rightarrow> held
      | Invoke j r \<Rightarrow> \<not> held
      | _ \<Rightarrow> True)"

text \<open>Example runs: an empty queue over an empty mesh, and blocks that pass validation.\<close>

definition emptyQueue :: blockQueue where
  "emptyQueue = NewValidationQueue \<lparr>mesh = {}, sent = []\<rparr>"


text \<open>
  Layer job 1 waits for blocks 1 and 2; block 1 is resolved with \<open>False\<close>, then block 2
  with \<open>True\<close>.
\<close>

definition twoDeps :: blockQueue where
  "twoDeps = snd (addDependencies (LayerJob 1) [BlockID 1, BlockID 2] (foo 0) emptyQueue)"

definition oneFailed :: blockQueue where
  "oneFailed = updateDependencies (Hash32 1) False twoDeps"

definition otherSucceeded :: blockQueue where
  "otherSucceeded = updateDependencies (Hash32 2) True oneFailed"

text \<open>
  Six valid blocks, all delivered by the network, each viewing blocks of earlier layers
  only: block 1 (layer 1) views nothing, 2 (layer 2) views 1, 3 (layer 3) views 2,
  4 (layer 4) views 3, and the two blocks of layer 5 view 2 (block 5) and 4 (block 6).
  Layer job 5 asks for the blocks of its layer, 5 and 6, as \<^verbatim>\<open>syncLayer\<close> does.  The
  queue pushes the fetch batches [5, 6], [2], [4], [1], [3], and \<^verbatim>\<open>handleBlock\<close> is
  given each batch in that order.
\<close>

definition inLayer :: "LayerID \<Rightarrow> nat \<Rightarrow> nat list \<Rightarrow> Block" where
  "inLayer l n es = plainBlock\<lparr>ID := BlockID n, LayerIndex := l, ViewEdges := map BlockID es\<rparr>"

definition asked :: blockQueue where
  "asked = snd (addDependencies (LayerJob 5) [BlockID 5, BlockID 6] (foo 0) emptyQueue)"

definition handled56 :: blockQueue where
  "handled56 =
     handleBlock lenient [Hash32 5, Hash32 6] [inLayer 5 5 [2], inLayer 5 6 [4]] asked"

definition handled2 :: blockQueue where
  "handled2 = handleBlock lenient [Hash32 2] [inLayer 2 2 [1]] handled56"

definition handled4 :: blockQueue where
  "handled4 = handleBlock lenient [Hash32 4] [inLayer 4 4 [3]] handled2"

definition handled1 :: blockQueue where
  "handled1 = handleBlock lenient [Hash32 1] [inLayer 1 1 []] handled4"

definition handled3 :: blockQueue where
  "handled3 = handleBlock lenient [Hash32 3] [inLayer 3 3 [2]] handled1"



text \<open>A queue over a mesh that has blocks 1 and 2.\<close>

definition stocked :: blockQueue where
  "stocked = NewValidationQueue \<lparr>mesh = {BlockID 1, BlockID 2}, sent = []\<rparr>"

subsection \<open>The loop of \<^verbatim>\<open>addDependencies\<close>\<close>

lemma addDep_frame:
  "addDep j i (vq, ds, ps) = (vq', ds', ps') \<Longrightarrow>
     visited vq' = visited vq \<and> outside vq' = outside vq \<and> depMap vq' = depMap vq \<and>
     callbacks vq' = callbacks vq \<and> queue vq' = queue vq \<and> ds \<subseteq> ds' \<and>
     (\<exists>es. trace vq' = trace vq @ es \<and> set es \<subseteq> {Write F_reverseDepMap})"
  by (auto simp: addDep_def Let_def logged_def split: if_splits)


lemma fold_addDep_frame:
  "fold (addDep j) blks (vq, ds, ps) = (vq', ds', ps') \<Longrightarrow>
     visited vq' = visited vq \<and> outside vq' = outside vq \<and> depMap vq' = depMap vq \<and>
     callbacks vq' = callbacks vq \<and> queue vq' = queue vq \<and> ds \<subseteq> ds' \<and>
     (\<exists>es. trace vq' = trace vq @ es \<and> set es \<subseteq> {Write F_reverseDepMap})"
proof (induction blks arbitrary: vq ds ps)
  case Nil
  then show ?case by simp
next
  case (Cons i blks)
  obtain vq1 ds1 ps1 where step: "addDep j i (vq, ds, ps) = (vq1, ds1, ps1)"
    by (cases "addDep j i (vq, ds, ps)")
  with Cons.prems have rest: "fold (addDep j) blks (vq1, ds1, ps1) = (vq', ds', ps')"
    by simp
  from addDep_frame [OF step] obtain es1 where a:
    "visited vq1 = visited vq" "outside vq1 = outside vq" "depMap vq1 = depMap vq"
    "callbacks vq1 = callbacks vq" "queue vq1 = queue vq" "ds \<subseteq> ds1"
    "trace vq1 = trace vq @ es1" "set es1 \<subseteq> {Write F_reverseDepMap}"
    by blast
  from Cons.IH [OF rest] obtain es2 where b:
    "visited vq' = visited vq1" "outside vq' = outside vq1" "depMap vq' = depMap vq1"
    "callbacks vq' = callbacks vq1" "queue vq' = queue vq1" "ds1 \<subseteq> ds'"
    "trace vq' = trace vq1 @ es2" "set es2 \<subseteq> {Write F_reverseDepMap}"
    by blast
  from a b have "trace vq' = trace vq @ (es1 @ es2)" "set (es1 @ es2) \<subseteq> {Write F_reverseDepMap}"
    by auto
  with a b show ?case by (metis order_trans)
qed







lemma addDep_skip:
  "\<not> inQueue vq (AsHash32 i) \<Longrightarrow> GetBlock (outside vq) i = None \<Longrightarrow>
     addDep jobId i (vq, ds, ps) = (vq, ds, ps)"
  by (simp add: addDep_def Let_def)

lemma fold_addDep_skip:
  "\<forall>i \<in> set blks. \<not> inQueue vq (AsHash32 i) \<and> GetBlock (outside vq) i = None \<Longrightarrow>
     fold (addDep jobId) blks (vq, ds, ps) = (vq, ds, ps)"
  by (induction blks) (simp_all add: addDep_skip)

lemma addDependencies_no_error:
  assumes "\<And>r w. fst (cb r w) = None"
  shows "snd (fst (addDependencies jobId blks cb vq)) = None"
  using assms
  by (auto simp: addDependencies_def Let_def split: prod.splits) (metis fst_conv)+

subsection \<open>The traces of \<^verbatim>\<open>updateDependencies\<close> and \<^verbatim>\<open>addDependencies\<close>\<close>

lemma guarded_lockfree:
  "Lock \<notin> set es \<Longrightarrow> Unlock \<notin> set es \<Longrightarrow>
     guarded ok held (es @ rest) = ((\<forall>e \<in> set es. ok e held) \<and> guarded ok held rest)"
proof (induction es)
  case Nil
  then show ?case by simp
next
  case (Cons e es)
  then show ?case by (cases e) auto
qed

lemma removeDep_trace:
  "removeDep block valid dep (vq, ds) = (vq', ds') \<Longrightarrow>
     \<exists>es. trace vq' = trace vq @ es \<and> Lock \<notin> set es \<and> Unlock \<notin> set es"
  by (auto simp: removeDep_def Let_def logged_def
      split: option.splits if_splits prod.splits job.splits)

lemma fold_removeDep_trace:
  "fold (removeDep block valid) deps (vq, ds) = (vq', ds') \<Longrightarrow>
     \<exists>es. trace vq' = trace vq @ es \<and> Lock \<notin> set es \<and> Unlock \<notin> set es"
proof (induction deps arbitrary: vq ds)
  case Nil
  then show ?case by simp
next
  case (Cons dep deps)
  obtain vq1 ds1 where step: "removeDep block valid dep (vq, ds) = (vq1, ds1)"
    by (cases "removeDep block valid dep (vq, ds)")
  with Cons.prems have rest: "fold (removeDep block valid) deps (vq1, ds1) = (vq', ds')"
    by simp
  from removeDep_trace [OF step] obtain es1
    where es1: "trace vq1 = trace vq @ es1" "Lock \<notin> set es1" "Unlock \<notin> set es1"
    by blast
  from Cons.IH [OF rest] obtain es2
    where es2: "trace vq' = trace vq1 @ es2" "Lock \<notin> set es2" "Unlock \<notin> set es2"
    by blast
  from es1 es2 have "trace vq' = trace vq @ (es1 @ es2)" "Lock \<notin> set (es1 @ es2)"
      "Unlock \<notin> set (es1 @ es2)"
    by simp_all
  then show ?case by blast
qed

lemma removefromDepMaps_trace:
  assumes "removefromDepMaps block valid ds vq = (vq', ds')"
  shows "\<exists>es. trace vq' = trace vq @ es \<and> Lock \<notin> set es \<and> Unlock \<notin> set es"
proof -
  obtain vq1 ds1 where f: "fold (removeDep block valid)
      (case map_of (reverseDepMap vq) block of None \<Rightarrow> [] | Some deps \<Rightarrow> deps) (vq, ds) = (vq1, ds1)"
    by (cases "fold (removeDep block valid)
      (case map_of (reverseDepMap vq) block of None \<Rightarrow> [] | Some deps \<Rightarrow> deps) (vq, ds)")
  from fold_removeDep_trace [OF f] obtain es1
    where es1: "trace vq1 = trace vq @ es1" "Lock \<notin> set es1" "Unlock \<notin> set es1"
    by blast
  from assms f have "trace vq' = trace vq1 @ [Write F_reverseDepMap]"
    by (auto simp: removefromDepMaps_def logged_def)
  with es1 have "trace vq' = trace vq @ (es1 @ [Write F_reverseDepMap])"
      "Lock \<notin> set (es1 @ [Write F_reverseDepMap])" "Unlock \<notin> set (es1 @ [Write F_reverseDepMap])"
    by simp_all
  then show ?thesis by blast
qed

lemma drain_trace:
  "\<exists>es. trace (drain valid doneQueue vq) = trace vq @ es \<and> Lock \<notin> set es \<and> Unlock \<notin> set es"
proof (induction valid doneQueue vq rule: drain.induct)
  case (1 valid vq)
  then show ?case by simp
next
  case (2 valid block doneQueue vq)
  obtain vq1 dq1 where step: "removefromDepMaps block valid doneQueue vq = (vq1, dq1)"
    by (cases "removefromDepMaps block valid doneQueue vq")
  from removefromDepMaps_trace [OF step] obtain es1
    where es1: "trace vq1 = trace vq @ es1" "Lock \<notin> set es1" "Unlock \<notin> set es1"
    by blast
  from "2.IH" [OF step [symmetric]] obtain es2
    where es2: "trace (drain valid dq1 vq1) = trace vq1 @ es2" "Lock \<notin> set es2" "Unlock \<notin> set es2"
    by blast
  from es1 es2 step have "trace (drain valid (block # doneQueue) vq) = trace vq @ (es1 @ es2)"
      "Lock \<notin> set (es1 @ es2)" "Unlock \<notin> set (es1 @ es2)"
    by simp_all
  then show ?case by blast
qed

lemma relax_trace:
  assumes "removefromDepMaps block valid [] vq4 = (vq5, dq)"
  shows "\<exists>es. trace (drain valid dq vq5) = trace vq4 @ es \<and> Lock \<notin> set es \<and> Unlock \<notin> set es"
proof -
  from removefromDepMaps_trace [OF assms] obtain es1
    where es1: "trace vq5 = trace vq4 @ es1" "Lock \<notin> set es1" "Unlock \<notin> set es1"
    by blast
  from drain_trace [of valid dq vq5] obtain es2
    where es2: "trace (drain valid dq vq5) = trace vq5 @ es2" "Lock \<notin> set es2" "Unlock \<notin> set es2"
    by blast
  from es1 es2 have "trace (drain valid dq vq5) = trace vq4 @ (es1 @ es2)"
      "Lock \<notin> set (es1 @ es2)" "Unlock \<notin> set (es1 @ es2)"
    by simp_all
  then show ?thesis by blast
qed

lemma updateDependencies_trace:
  "\<exists>es. trace (updateDependencies block valid vq) = trace vq @ [Lock] @ es @ [Unlock] \<and>
     Lock \<notin> set es \<and> Unlock \<notin> set es"
proof -
  obtain vq4 where vq4: "vq4 = logged (Write F_visited)
      (logged (Write F_callbacks)
        (logged (Write F_depMap)
          (logged Lock vq\<lparr>depMap := AList.delete (HashJob block) (depMap (logged Lock vq))\<rparr>)
         \<lparr>callbacks := AList.delete (HashJob block) (callbacks vq)\<rparr>)
       \<lparr>visited := visited vq - {block}\<rparr>)"
    by simp
  then have t4: "trace vq4 = trace vq @ [Lock, Write F_depMap, Write F_callbacks, Write F_visited]"
    by (simp add: logged_def)
  obtain vq5 dq where step: "removefromDepMaps block valid [] vq4 = (vq5, dq)"
    by (cases "removefromDepMaps block valid [] vq4")
  from relax_trace [OF step] obtain es
    where es: "trace (drain valid dq vq5) = trace vq4 @ es" "Lock \<notin> set es" "Unlock \<notin> set es"
    by blast
  have "updateDependencies block valid vq = logged Unlock (drain valid dq vq5)"
    using step vq4 by (simp add: updateDependencies_def Let_def logged_def)
  with t4 es have "trace (updateDependencies block valid vq) =
      trace vq @ [Lock] @ ([Write F_depMap, Write F_callbacks, Write F_visited] @ es) @ [Unlock]"
     "Lock \<notin> set ([Write F_depMap, Write F_callbacks, Write F_visited] @ es)"
     "Unlock \<notin> set ([Write F_depMap, Write F_callbacks, Write F_visited] @ es)"
    by (simp_all add: logged_def)
  then show ?thesis by blast
qed

lemma addDependencies_trace:
  "\<exists>es tl. trace (snd (addDependencies jobId blks cb vq)) =
       trace vq @ [Lock, Write F_callbacks] @ es @ [Unlock] @ tl \<and>
     set es \<subseteq> {Write F_reverseDepMap} \<and> (tl = [Invoke jobId True] \<or> tl = [Write F_depMap])"
proof -
  let ?vq2 = "logged (Write F_callbacks)
      ((logged Lock vq)\<lparr>callbacks := AList.update jobId cb (callbacks (logged Lock vq))\<rparr>)"
  obtain vq3 ds ps where f: "fold (addDep jobId) blks (?vq2, {}, []) = (vq3, ds, ps)"
    by (cases "fold (addDep jobId) blks (?vq2, {}, [])")
  from fold_addDep_frame [OF f] obtain es
    where es: "trace vq3 = trace ?vq2 @ es" "set es \<subseteq> {Write F_reverseDepMap}"
    by blast
  then have t3: "trace vq3 = trace vq @ [Lock, Write F_callbacks] @ es"
    by (simp add: logged_def)
  show ?thesis
  proof (cases "ds = {}")
    case True
    with f t3 have "trace (snd (addDependencies jobId blks cb vq)) =
       trace vq @ [Lock, Write F_callbacks] @ es @ [Unlock] @ [Invoke jobId True]"
      by (simp add: addDependencies_def Let_def logged_def addToPending_def split: prod.splits)
    with es(2) show ?thesis by blast
  next
    case False
    with f t3 have "trace (snd (addDependencies jobId blks cb vq)) =
       trace vq @ [Lock, Write F_callbacks] @ es @ [Unlock] @ [Write F_depMap]"
      by (simp add: addDependencies_def Let_def logged_def addToPending_def)
    with es(2) show ?thesis by blast
  qed
qed

subsection \<open>A block that refers to itself\<close>



section \<open>The claims about the block queue\<close>

text \<open>
  Claim C1 on the code.  Layer job 1 waits for blocks 1 and 2.  Block 1 is resolved
  with \<open>False\<close>: \<^verbatim>\<open>removefromDepMaps\<close> takes its hash out of the job's set, which is not
  empty yet, so no callback runs and the failure is not recorded anywhere.  Block 2 is
  then resolved with \<open>True\<close>: the set becomes empty and the job's callback is called with
  \<open>True\<close>, the outcome of the dependency that came last.  It is never called with \<open>False\<close>.
\<close>

theorem failure_is_lost_when_not_last:
  "map_of (depMap twoDeps) (LayerJob 1) = Some {Hash32 1, Hash32 2} \<and>
   invoked (trace oneFailed) = [] \<and>
   map_of (depMap oneFailed) (LayerJob 1) = Some {Hash32 2} \<and>
   invoked (trace otherSucceeded) = [(LayerJob 1, True)] \<and>
   sent (outside otherSucceeded) = [(0, True)]"
  by code_simp

text \<open>
  Claim C2 on the code.  The six blocks form an acyclic graph, every block is valid and
  is delivered.  Block 2 is completed from inside the loop of \<^verbatim>\<open>updateDependencies\<close> for
  block 1, which deletes \<^verbatim>\<open>visited\<close> only for the hash it was called with: hash 2 stays
  in \<^verbatim>\<open>visited\<close> although block 2 is in the mesh and nothing waits for it any more.  When
  block 3 is handled afterwards, \<^verbatim>\<open>inQueue\<close> answers true for its child 2, so job 3 is
  made to wait for a hash that nobody will resolve again, and nothing is pushed.  Every
  batch pushed has been handled, and the callback of layer job 5 was not called: nothing
  was sent on its channel, and the job still waits for block 6, which waits for block 4,
  which waits for block 3, which waits for block 2.
\<close>

theorem root_is_never_called:
  "queue asked = [[Hash32 5, Hash32 6]] \<and>
   queue handled56 = [[Hash32 5, Hash32 6], [Hash32 2], [Hash32 4]] \<and>
   queue handled2 = [[Hash32 5, Hash32 6], [Hash32 2], [Hash32 4], [Hash32 1]] \<and>
   queue handled4 = [[Hash32 5, Hash32 6], [Hash32 2], [Hash32 4], [Hash32 1], [Hash32 3]] \<and>
   invoked (trace handled4) = [] \<and>
   invoked (trace handled1) =
     [(BlockJob (BlockID 1), True), (BlockJob (BlockID 2), True), (BlockJob (BlockID 5), True)] \<and>
   mesh (outside handled1) = {BlockID 1, BlockID 2, BlockID 5} \<and>
   map_of (reverseDepMap handled1) (Hash32 2) = None \<and>
   Hash32 2 \<in> visited handled1 \<and>
   queue handled3 = [[Hash32 5, Hash32 6], [Hash32 2], [Hash32 4], [Hash32 1], [Hash32 3]] \<and>
   invoked (trace handled3) =
     [(BlockJob (BlockID 1), True), (BlockJob (BlockID 2), True), (BlockJob (BlockID 5), True)] \<and>
   sent (outside handled3) = [] \<and>
   map_of (depMap handled3) (LayerJob 5) = Some {Hash32 6} \<and>
   map_of (depMap handled3) (BlockJob (BlockID 6)) = Some {Hash32 4} \<and>
   map_of (depMap handled3) (BlockJob (BlockID 4)) = Some {Hash32 3} \<and>
   map_of (depMap handled3) (BlockJob (BlockID 3)) = Some {Hash32 2} \<and>
   mesh (outside handled3) = {BlockID 1, BlockID 2, BlockID 5}"
  by code_simp

text \<open>
  Claim C5, as stated, fails twice.  \<^verbatim>\<open>addDependencies\<close> stores the dependency set
  (\<^verbatim>\<open>vq.depMap[jobId] = dependencys\<close>) after \<^verbatim>\<open>vq.Unlock()\<close>; and \<^verbatim>\<open>updateDependencies\<close>
  holds the mutex until it returns (\<^verbatim>\<open>defer vq.Unlock()\<close>), so the callbacks that
  \<^verbatim>\<open>removefromDepMaps\<close> calls run with the mutex held.
\<close>

theorem lock_discipline_broken:
  "trace twoDeps =
     [Lock, Write F_callbacks, Write F_reverseDepMap, Write F_reverseDepMap, Unlock, Write F_depMap] \<and>
   \<not> guarded writesHeld False (trace twoDeps) \<and>
   trace (updateDependencies (Hash32 2) True (oneFailed\<lparr>trace := []\<rparr>)) =
     [Lock, Write F_depMap, Write F_callbacks, Write F_visited, Write F_depMap, Write F_depMap,
      Invoke (LayerJob 1) True, Write F_callbacks, Write F_reverseDepMap, Unlock] \<and>
   \<not> guarded invokesFree False (trace (updateDependencies (Hash32 2) True (oneFailed\<lparr>trace := []\<rparr>)))"
  by code_simp

text \<open>
  Claim C5, amended.  From any state, everything \<^verbatim>\<open>updateDependencies\<close> does to the four
  maps, and every callback it calls, happens with the mutex held.  \<^verbatim>\<open>addDependencies\<close>
  writes \<^verbatim>\<open>callbacks\<close> and \<^verbatim>\<open>reverseDepMap\<close> with the mutex held and calls the callback
  (when no child is pending) after it released the mutex.
\<close>

theorem lock_discipline:
  "(\<exists>es. trace (updateDependencies block valid vq) = trace vq @ es \<and> guarded allHeld False es) \<and>
   (\<exists>es. trace (snd (addDependencies jobId blks cb vq)) = trace vq @ es \<and>
      guarded addDiscipline False es)"
proof -
  from updateDependencies_trace [of block valid vq] obtain es
    where es: "trace (updateDependencies block valid vq) = trace vq @ [Lock] @ es @ [Unlock]"
      "Lock \<notin> set es" "Unlock \<notin> set es"
    by blast
  have "guarded allHeld False ([Lock] @ es @ [Unlock])"
    using guarded_lockfree [OF es(2,3), of allHeld True "[Unlock]"]
    by (simp add: allHeld_def)
  with es(1) have upd: "\<exists>es. trace (updateDependencies block valid vq) = trace vq @ es \<and>
      guarded allHeld False es"
    by blast
  from addDependencies_trace [of jobId blks cb vq] obtain es' tl
    where es': "trace (snd (addDependencies jobId blks cb vq)) =
        trace vq @ [Lock, Write F_callbacks] @ es' @ [Unlock] @ tl"
      "set es' \<subseteq> {Write F_reverseDepMap}" "tl = [Invoke jobId True] \<or> tl = [Write F_depMap]"
    by blast
  from es'(2) have lf: "Lock \<notin> set es'" "Unlock \<notin> set es'"
    by auto
  from es'(2) have "\<forall>e \<in> set es'. addDiscipline e True"
    by (auto simp: addDiscipline_def)
  with guarded_lockfree [OF lf, of addDiscipline True "[Unlock] @ tl"] es'(3)
  have "guarded addDiscipline False ([Lock, Write F_callbacks] @ es' @ [Unlock] @ tl)"
    by (auto simp: addDiscipline_def)
  with es'(1) have "\<exists>es. trace (snd (addDependencies jobId blks cb vq)) = trace vq @ es \<and>
      guarded addDiscipline False es"
    by blast
  with upd show ?thesis by blast
qed

theorem lock_discipline_witness:
  "trace (updateDependencies (Hash32 2) True oneFailed) =
     trace oneFailed @
       [Lock, Write F_depMap, Write F_callbacks, Write F_visited, Write F_depMap, Write F_depMap,
        Invoke (LayerJob 1) True, Write F_callbacks, Write F_reverseDepMap, Unlock] \<and>
   guarded allHeld False
       [Lock, Write F_depMap, Write F_callbacks, Write F_visited, Write F_depMap, Write F_depMap,
        Invoke (LayerJob 1) True, Write F_callbacks, Write F_reverseDepMap, Unlock]"
proof -
  have run: "trace (updateDependencies (Hash32 2) True oneFailed) =
     trace oneFailed @
       [Lock, Write F_depMap, Write F_callbacks, Write F_visited, Write F_depMap, Write F_depMap,
        Invoke (LayerJob 1) True, Write F_callbacks, Write F_reverseDepMap, Unlock]"
    by code_simp
  from lock_discipline [of "Hash32 2" True oneFailed] obtain es
    where "trace (updateDependencies (Hash32 2) True oneFailed) = trace oneFailed @ es"
      "guarded allHeld False es"
    by blast
  with run show ?thesis by simp
qed




text \<open>
  Claim C9, as stated, fails.  The loop of \<^verbatim>\<open>addDependencies\<close> asks \<^verbatim>\<open>inQueue\<close> before
  it asks the block store.  In the state \<open>handled1\<close> block 2 is in the mesh and its hash
  is still in \<^verbatim>\<open>visited\<close>.  A job whose only child is block 2 is registered as waiting
  for hash 2: \<^verbatim>\<open>addDependencies\<close> returns \<open>True\<close> (pending) with a nil error, stores the
  set \<open>{2}\<close> in \<^verbatim>\<open>depMap\<close> for the job, and calls no callback.
\<close>

theorem stored_child_in_queue_is_registered:
  "BlockID 2 \<in> mesh (outside handled1) \<and>
   GetBlock (outside handled1) (BlockID 2) = None \<and>
   inQueue handled1 (AsHash32 (BlockID 2)) \<and>
   fst (addDependencies (LayerJob 9) [BlockID 2] (foo 1) handled1) = (True, None) \<and>
   map_of (depMap (snd (addDependencies (LayerJob 9) [BlockID 2] (foo 1) handled1))) (LayerJob 9) =
     Some {Hash32 2} \<and>
   map_of (reverseDepMap (snd (addDependencies (LayerJob 9) [BlockID 2] (foo 1) handled1)))
     (Hash32 2) = Some [LayerJob 9] \<and>
   invoked (trace (snd (addDependencies (LayerJob 9) [BlockID 2] (foo 1) handled1))) =
     invoked (trace handled1) \<and>
   sent (outside (snd (addDependencies (LayerJob 9) [BlockID 2] (foo 1) handled1))) = []"
  by code_simp

text \<open>
  Claim C9, amended.  No child needs registration: none is pending in the queue
  (\<^verbatim>\<open>inQueue\<close>: its hash is neither in \<^verbatim>\<open>visited\<close> nor a key of \<^verbatim>\<open>reverseDepMap\<close>) and
  \<^verbatim>\<open>GetBlock\<close> finds every one in the block store; an empty list of children is the
  case with nothing to check.  Then \<^verbatim>\<open>addDependencies\<close>
  returns \<open>False\<close> with the error \<open>cb True\<close> returned.  The state it leaves differs from
  the one it found in three fields: \<^verbatim>\<open>callbacks\<close> holds \<open>cb\<close> for the job, the world is
  what \<open>cb True\<close> made of it, and the trace has grown by the lock, the write of
  \<^verbatim>\<open>callbacks\<close>, the unlock and one call of the callback with \<open>True\<close>.  \<^verbatim>\<open>depMap\<close>,
  \<^verbatim>\<open>reverseDepMap\<close>, \<^verbatim>\<open>visited\<close> and the fetch queue are untouched.
\<close>

theorem no_pending_children:
  assumes "\<forall>i \<in> set blks. \<not> inQueue vq (AsHash32 i) \<and> GetBlock (outside vq) i = None"
  shows "addDependencies jobId blks cb vq =
           ((False, fst (cb True (outside vq))),
            vq\<lparr>callbacks := AList.update jobId cb (callbacks vq),
               outside := snd (cb True (outside vq)),
               trace := trace vq @ [Lock, Write F_callbacks, Unlock, Invoke jobId True]\<rparr>)"
proof -
  let ?vq2 = "logged (Write F_callbacks)
      ((logged Lock vq)\<lparr>callbacks := AList.update jobId cb (callbacks (logged Lock vq))\<rparr>)"
  have "inQueue ?vq2 = inQueue vq" "outside ?vq2 = outside vq"
    by (simp_all add: inQueue_def logged_def fun_eq_iff)
  with assms have "\<forall>i \<in> set blks. \<not> inQueue ?vq2 (AsHash32 i) \<and> GetBlock (outside ?vq2) i = None"
    by simp
  from fold_addDep_skip [OF this]
  have "fold (addDep jobId) blks (?vq2, {}, []) = (?vq2, {}, [])" .
  then show ?thesis
    by (simp add: addDependencies_def Let_def logged_def split: prod.splits)
qed

theorem no_pending_children_witness:
  "\<not> inQueue stocked (AsHash32 (BlockID 1)) \<and> GetBlock (outside stocked) (BlockID 1) = None \<and>
   \<not> inQueue stocked (AsHash32 (BlockID 2)) \<and> GetBlock (outside stocked) (BlockID 2) = None \<and>
   fst (addDependencies (LayerJob 3) [BlockID 1, BlockID 2] (foo 0) stocked) = (False, None) \<and>
   depMap (snd (addDependencies (LayerJob 3) [BlockID 1, BlockID 2] (foo 0) stocked)) = [] \<and>
   invoked (trace (snd (addDependencies (LayerJob 3) [BlockID 1, BlockID 2] (foo 0) stocked))) =
     [(LayerJob 3, True)] \<and>
   sent (outside (snd (addDependencies (LayerJob 3) [BlockID 1, BlockID 2] (foo 0) stocked))) =
     [(0, True)]"
proof -
  have h: "\<forall>i \<in> set [BlockID 1, BlockID 2].
      \<not> inQueue stocked (AsHash32 i) \<and> GetBlock (outside stocked) i = None"
    by (simp add: stocked_def NewValidationQueue_def inQueue_def GetBlock_def)
  from no_pending_children [OF h, of "LayerJob 3" "foo 0"] h show ?thesis
    by (simp add: stocked_def NewValidationQueue_def foo_def)
qed

text \<open>
  Claim C10.  \<^verbatim>\<open>GetBlocks\<close> returns a nil error when the outcome it receives from the
  queue is \<open>True\<close> and when it is \<open>False\<close>.  When it returns an error, either
  \<^verbatim>\<open>addDependencies\<close> returned one or the exit channel was closed while it waited.
\<close>

theorem GetBlocks_hides_the_outcome:
  "fst (GetBlocks blockIds rnd ch (Received True) vq) = None \<and>
   fst (GetBlocks blockIds rnd ch (Received False) vq) = None \<and>
   (fst (GetBlocks blockIds rnd ch sel vq) \<noteq> None \<longrightarrow>
      snd (fst (addDependencies (LayerJob rnd) blockIds (foo ch) vq)) \<noteq> None \<or> sel = ExitClosed)"
proof -
  have "snd (fst (addDependencies (LayerJob rnd) blockIds (foo ch) vq)) = None"
    by (rule addDependencies_no_error) (simp add: foo_def)
  then show ?thesis
    by (auto simp: GetBlocks_def getBlocks_def split: prod.splits select.splits)
qed

theorem GetBlocks_hides_the_outcome_witness:
  "fst (fst (addDependencies (LayerJob 7) [BlockID 1] (foo 0) emptyQueue)) = True \<and>
   fst (GetBlocks [BlockID 1] 7 0 (Received False) emptyQueue) = None \<and>
   fst (GetBlocks [BlockID 1] 7 0 (Received True) emptyQueue) = None \<and>
   fst (GetBlocks [BlockID 1] 7 0 ExitClosed emptyQueue) = Some (Errorf ''received interrupt'') \<and>
   fst (GetBlocks [BlockID 1] 7 0 ExitClosed stocked) = None"
proof -
  have e: "fst (GetBlocks [BlockID 1] 7 0 ExitClosed emptyQueue) = Some (Errorf ''received interrupt'')"
    "fst (fst (addDependencies (LayerJob 7) [BlockID 1] (foo 0) emptyQueue)) = True"
    "fst (GetBlocks [BlockID 1] 7 0 ExitClosed stocked) = None"
    by code_simp+
  from GetBlocks_hides_the_outcome [of "[BlockID 1]" 7 0 emptyQueue ExitClosed] e
  show ?thesis by simp
qed

end
